theory Spec2Isabelle
  imports Main "HOL-Library.Word"
begin

unbundle bit_operations_syntax

section \<open>The ASPEED INTC controller (hw/intc/aspeed_intc.c)\<close>

text \<open>
  The controller groups up to 32 source interrupts per input pin (channel) and raises one
  output pin per channel. Firmware sees two 32-bit registers per channel: an enable
  register at byte offset \<open>0x100 * c\<close> and a status register at \<open>0x100 * c + 4\<close>.

  The embedding follows the C code function by function. Logging and tracing calls have
  no effect on the device and are left out. C integers that the code keeps below
  \<open>2 ^ 32\<close> by construction (pin indices, register indices) are \<open>nat\<close>; register
  contents are \<open>32 word\<close>; the \<open>hwaddr\<close> offset and the \<open>uint64_t\<close> data of a register
  write are \<open>64 word\<close>, with every implicit C conversion written as \<open>ucast\<close>.
\<close>

subsection \<open>Class data and device state\<close>

text \<open>
  The fields of \<open>AspeedINTCClass\<close> that the register and interrupt logic reads.
  (\<open>mem_size\<close> and \<open>reg_offset\<close> only place the memory region.)
\<close>

record AspeedINTCClass =
  num_lines :: nat
  num_inpins :: nat
  num_outpins :: nat
  nr_regs :: nat

text \<open>\<open>aspeed_2700_intc_class_init\<close>: the one concrete class of the file.\<close>

definition aspeed_2700_intc_class :: AspeedINTCClass where
  "aspeed_2700_intc_class =
     \<lparr>num_lines = 32, num_inpins = 9, num_outpins = 9, nr_regs = 0x808 div 4\<rparr>"

text \<open>
  \<open>AspeedINTCState\<close>. The arrays \<open>regs\<close>, \<open>enable\<close>, \<open>mask\<close>, \<open>pending\<close> are stores from
  index to word; \<open>mask\<close> is named \<open>mask_bits\<close> here because \<open>mask\<close> is a constant of the
  word library. \<open>orgates c i\<close> is \<open>s->orgates[c].levels[i]\<close>, the level of source line
  \<open>i\<close> of the OR gate in front of channel \<open>c\<close>. \<open>output_pins o\<close> is the level last
  passed to \<open>qemu_set_irq\<close> for output pin \<open>o\<close>, that is, the level the line is driven to.
\<close>

record AspeedINTCState =
  regs :: "nat \<Rightarrow> 32 word"
  enable :: "nat \<Rightarrow> 32 word"
  mask_bits :: "nat \<Rightarrow> 32 word"
  pending :: "nat \<Rightarrow> 32 word"
  orgates :: "nat \<Rightarrow> nat \<Rightarrow> bool"
  output_pins :: "nat \<Rightarrow> int"

subsection \<open>Register indices\<close>

text \<open>\<open>REG32(name, addr)\<close> defines \<open>R_name = addr / 4\<close>.\<close>

definition R_GICINT128_EN :: nat where "R_GICINT128_EN = 0x000 div 4"
definition R_GICINT128_STATUS :: nat where "R_GICINT128_STATUS = 0x004 div 4"
definition R_GICINT129_EN :: nat where "R_GICINT129_EN = 0x100 div 4"
definition R_GICINT129_STATUS :: nat where "R_GICINT129_STATUS = 0x104 div 4"
definition R_GICINT130_EN :: nat where "R_GICINT130_EN = 0x200 div 4"
definition R_GICINT130_STATUS :: nat where "R_GICINT130_STATUS = 0x204 div 4"
definition R_GICINT131_EN :: nat where "R_GICINT131_EN = 0x300 div 4"
definition R_GICINT131_STATUS :: nat where "R_GICINT131_STATUS = 0x304 div 4"
definition R_GICINT132_EN :: nat where "R_GICINT132_EN = 0x400 div 4"
definition R_GICINT132_STATUS :: nat where "R_GICINT132_STATUS = 0x404 div 4"
definition R_GICINT133_EN :: nat where "R_GICINT133_EN = 0x500 div 4"
definition R_GICINT133_STATUS :: nat where "R_GICINT133_STATUS = 0x504 div 4"
definition R_GICINT134_EN :: nat where "R_GICINT134_EN = 0x600 div 4"
definition R_GICINT134_STATUS :: nat where "R_GICINT134_STATUS = 0x604 div 4"
definition R_GICINT135_EN :: nat where "R_GICINT135_EN = 0x700 div 4"
definition R_GICINT135_STATUS :: nat where "R_GICINT135_STATUS = 0x704 div 4"
definition R_GICINT136_EN :: nat where "R_GICINT136_EN = 0x800 div 4"
definition R_GICINT136_STATUS :: nat where "R_GICINT136_STATUS = 0x804 div 4"

definition GICINT_STATUS_BASE :: nat where
  "GICINT_STATUS_BASE = R_GICINT128_STATUS"

text \<open>
  \<open>BIT(n)\<close> is \<open>1UL << n\<close>, an \<open>unsigned long\<close>. The only caller shifts by a line
  number below \<open>num_lines\<close>, which is 32 in the one concrete class; a shift by 64 or
  more, undefined in C, does not occur there.
\<close>

definition BIT :: "nat \<Rightarrow> 64 word" where
  "BIT n = push_bit n 1"

text \<open>
  The decoding both write handlers and the read function apply to the offset:
  \<open>uint32_t reg = offset >> 2\<close> and \<open>irq = (offset & 0x0f00) >> 8\<close>.
\<close>

definition reg_of :: "64 word \<Rightarrow> nat" where
  "reg_of offset = unat (ucast (drop_bit 2 offset) :: 32 word)"

definition irq_of :: "64 word \<Rightarrow> nat" where
  "irq_of offset = unat (ucast (drop_bit 8 (offset AND 0x0f00)) :: 32 word)"

subsection \<open>The functions of the controller\<close>

text \<open>\<open>aspeed_intc_update\<close>: drive one output pin, after checking both indices.\<close>

definition aspeed_intc_update ::
  "AspeedINTCClass \<Rightarrow> AspeedINTCState \<Rightarrow> nat \<Rightarrow> nat \<Rightarrow> int \<Rightarrow> AspeedINTCState" where
  "aspeed_intc_update aic s inpin_idx outpin_idx level =
     (if inpin_idx \<ge> num_inpins aic then s
      else if outpin_idx \<ge> num_outpins aic then s
      else s\<lparr>output_pins := (output_pins s)(outpin_idx := level)\<rparr>)"

text \<open>
  The body of the loop of \<open>aspeed_intc_set_irq\<close>, for line \<open>i\<close>:
  \<open>if (levels[i]) { if (enable & BIT(i)) { select |= BIT(i); } }\<close>.
  \<open>enable\<close> and \<open>select\<close> are \<open>uint32_t\<close>, widened for the operation with the
  \<open>unsigned long\<close> bit and, for \<open>select\<close>, narrowed again by the assignment.
\<close>

definition select_step ::
  "(nat \<Rightarrow> bool) \<Rightarrow> 32 word \<Rightarrow> nat \<Rightarrow> 32 word \<Rightarrow> 32 word" where
  "select_step levels en i select =
     (if levels i then
        (if (ucast en :: 64 word) AND BIT i \<noteq> 0
         then ucast ((ucast select :: 64 word) OR BIT i)
         else select)
      else select)"

text \<open>The loop \<open>for (i = 0; i < aic->num_lines; i++)\<close>, starting from \<open>select = 0\<close>.\<close>

definition select_loop :: "nat \<Rightarrow> (nat \<Rightarrow> bool) \<Rightarrow> 32 word \<Rightarrow> 32 word" where
  "select_loop n levels en = fold (select_step levels en) [0..<n] 0"

text \<open>
  \<open>aspeed_intc_set_irq\<close>, the handler of input pin \<open>irq\<close>. The C parameter is an \<open>int\<close>;
  it is the number of a GPIO input line and is never negative, so it is a \<open>nat\<close> here.
  \<open>status_reg\<close> is computed before the range check but used only after it.
\<close>

definition aspeed_intc_set_irq ::
  "AspeedINTCClass \<Rightarrow> AspeedINTCState \<Rightarrow> nat \<Rightarrow> int \<Rightarrow> AspeedINTCState" where
  "aspeed_intc_set_irq aic s irq level =
     (let status_reg = GICINT_STATUS_BASE + (0x100 * irq) div 4;
          outpin_idx = irq;
          inpin_idx = irq
      in if irq \<ge> num_inpins aic then s
         else
           let en = enable s inpin_idx
           in if level = 0 then s
              else
                let select = select_loop (num_lines aic) (orgates s inpin_idx) en
                in if select = 0 then s
                   else if mask_bits s inpin_idx \<noteq> 0 \<or> regs s status_reg \<noteq> 0 then
                     s\<lparr>pending := (pending s)(inpin_idx := pending s inpin_idx OR select)\<rparr>
                   else
                     aspeed_intc_update aic
                       (s\<lparr>regs := (regs s)(status_reg := select)\<rparr>)
                       inpin_idx outpin_idx 1)"

text \<open>
  \<open>aspeed_intc_enable_handler\<close>: a write of \<open>data\<close> to an enable register. The three
  exits are the early return for a zero write with nothing enabled, the return after
  new sources were enabled, and the mask/unmask path.
\<close>

definition aspeed_intc_enable_handler ::
  "AspeedINTCClass \<Rightarrow> AspeedINTCState \<Rightarrow> 64 word \<Rightarrow> 64 word \<Rightarrow> AspeedINTCState" where
  "aspeed_intc_enable_handler aic s offset data =
     (let reg = reg_of offset;
          irq = irq_of offset;
          inpin_idx = irq
      in if inpin_idx \<ge> num_inpins aic then s
         else if data = 0 \<and> enable s inpin_idx = 0 then
           s\<lparr>regs := (regs s)(reg := ucast data)\<rparr>
         else
           let old_enable = enable s inpin_idx;
               s1 = s\<lparr>enable := (enable s)(inpin_idx :=
                       ucast ((ucast (enable s inpin_idx) :: 64 word) OR data))\<rparr>
           in if old_enable \<noteq> enable s1 inpin_idx then
                s1\<lparr>regs := (regs s1)(reg := ucast data)\<rparr>
              else
                let change = (ucast ((ucast (regs s1 reg) :: 64 word) XOR data) :: 32 word);
                    s2 = (if (ucast change :: 64 word) AND data \<noteq> 0 then
                            s1\<lparr>mask_bits := (mask_bits s1)(inpin_idx :=
                                  mask_bits s1 inpin_idx AND NOT change)\<rparr>
                          else
                            s1\<lparr>mask_bits := (mask_bits s1)(inpin_idx :=
                                  mask_bits s1 inpin_idx OR change)\<rparr>)
                in s2\<lparr>regs := (regs s2)(reg := ucast data)\<rparr>)"

text \<open>
  \<open>aspeed_intc_status_handler\<close>: a write of \<open>data\<close> to a status register. The zero
  check comes before the pin check, as in the source.
\<close>

definition aspeed_intc_status_handler ::
  "AspeedINTCClass \<Rightarrow> AspeedINTCState \<Rightarrow> 64 word \<Rightarrow> 64 word \<Rightarrow> AspeedINTCState" where
  "aspeed_intc_status_handler aic s offset data =
     (let reg = reg_of offset
      in if data = 0 then s
         else
           let irq = irq_of offset;
               outpin_idx = irq;
               inpin_idx = irq
           in if inpin_idx \<ge> num_inpins aic then s
              else
                let s1 = s\<lparr>regs := (regs s)(reg :=
                           ucast ((ucast (regs s reg) :: 64 word) AND NOT data))\<rparr>
                in if data = 0xffffffff then s1
                   else if regs s1 reg = 0 then
                     (if pending s1 inpin_idx \<noteq> 0 then
                        aspeed_intc_update aic
                          (s1\<lparr>regs := (regs s1)(reg := pending s1 inpin_idx),
                              pending := (pending s1)(inpin_idx := 0)\<rparr>)
                          inpin_idx outpin_idx 1
                      else aspeed_intc_update aic s1 inpin_idx outpin_idx 0)
                   else s1)"

text \<open>\<open>aspeed_intc_read\<close>: the register word, widened to the \<open>uint64_t\<close> result.\<close>

definition aspeed_intc_read :: "AspeedINTCState \<Rightarrow> 64 word \<Rightarrow> 64 word" where
  "aspeed_intc_read s offset = ucast (regs s (reg_of offset))"

text \<open>\<open>aspeed_intc_write\<close>: the \<open>switch\<close> on the register index.\<close>

definition aspeed_intc_write ::
  "AspeedINTCClass \<Rightarrow> AspeedINTCState \<Rightarrow> 64 word \<Rightarrow> 64 word \<Rightarrow> AspeedINTCState" where
  "aspeed_intc_write aic s offset data =
     (let reg = reg_of offset
      in if reg \<in> {R_GICINT128_EN, R_GICINT129_EN, R_GICINT130_EN, R_GICINT131_EN,
                    R_GICINT132_EN, R_GICINT133_EN, R_GICINT134_EN, R_GICINT135_EN,
                    R_GICINT136_EN}
         then aspeed_intc_enable_handler aic s offset data
         else if reg \<in> {R_GICINT128_STATUS, R_GICINT129_STATUS, R_GICINT130_STATUS,
                         R_GICINT131_STATUS, R_GICINT132_STATUS, R_GICINT133_STATUS,
                         R_GICINT134_STATUS, R_GICINT135_STATUS, R_GICINT136_STATUS}
         then aspeed_intc_status_handler aic s offset data
         else s\<lparr>regs := (regs s)(reg := ucast data)\<rparr>)"

text \<open>
  \<open>aspeed_intc_reset\<close>: \<open>memset\<close> clears the first \<open>nr_regs\<close> register words and the
  whole of \<open>enable\<close>, \<open>mask\<close> and \<open>pending\<close>. It does not touch the OR gates or the
  output pins.
\<close>

definition aspeed_intc_reset :: "AspeedINTCClass \<Rightarrow> AspeedINTCState \<Rightarrow> AspeedINTCState" where
  "aspeed_intc_reset aic s =
     s\<lparr>regs := (\<lambda>i. if i < nr_regs aic then 0 else regs s i),
       enable := (\<lambda>_. 0),
       mask_bits := (\<lambda>_. 0),
       pending := (\<lambda>_. 0)\<rparr>"

subsection \<open>The vocabulary of the specification\<close>

text \<open>
  The specification speaks of channels and of the operations \<open>notify\<close>, \<open>write_enable\<close>
  and \<open>write_status\<close>. Channel \<open>c\<close> has its enable register at byte offset
  \<open>0x100 * c\<close> and its status register at \<open>0x100 * c + 4\<close> (the \<open>REG32\<close> table).
  The table and the \<open>switch\<close> of \<open>aspeed_intc_write\<close> know nine channels, GICINT128 to
  GICINT136, and the handlers read the channel from four bits of the offset; statements
  about a valid channel therefore assume \<open>num_inpins \<le> 9\<close>, which holds for the one
  concrete class.
\<close>

definition en_offset :: "nat \<Rightarrow> 64 word" where
  "en_offset c = of_nat (0x100 * c)"

definition status_offset :: "nat \<Rightarrow> 64 word" where
  "status_offset c = of_nat (0x100 * c + 4)"

text \<open>
  The register indices of channel \<open>c\<close>. \<open>status_reg\<close> is the expression of
  \<open>aspeed_intc_set_irq\<close>; \<open>enable_reg\<close> is its counterpart for the enable bank.
\<close>

definition enable_reg :: "nat \<Rightarrow> nat" where
  "enable_reg c = R_GICINT128_EN + (0x100 * c) div 4"

definition status_reg :: "nat \<Rightarrow> nat" where
  "status_reg c = GICINT_STATUS_BASE + (0x100 * c) div 4"

text \<open>The latched status of a channel is the content of its status register.\<close>

definition status :: "AspeedINTCState \<Rightarrow> nat \<Rightarrow> 32 word" where
  "status s c = regs s (status_reg c)"

text \<open>
  A register write carries 32 bits (\<open>min_access_size = max_access_size = 4\<close>), which the
  memory core hands to the handler as a \<open>uint64_t\<close>.
\<close>

definition write_enable ::
  "AspeedINTCClass \<Rightarrow> nat \<Rightarrow> 32 word \<Rightarrow> AspeedINTCState \<Rightarrow> AspeedINTCState" where
  "write_enable aic c v s = aspeed_intc_enable_handler aic s (en_offset c) (ucast v)"

definition write_status ::
  "AspeedINTCClass \<Rightarrow> nat \<Rightarrow> 32 word \<Rightarrow> AspeedINTCState \<Rightarrow> AspeedINTCState" where
  "write_status aic c v s = aspeed_intc_status_handler aic s (status_offset c) (ucast v)"

text \<open>
  The mask of currently asserted sources of channel \<open>c\<close>: bit \<open>i\<close> is the level of
  line \<open>i\<close> of the channel's OR gate, for the \<open>num_lines\<close> lines the loop looks at.
\<close>

definition currently_asserted_mask ::
  "AspeedINTCClass \<Rightarrow> AspeedINTCState \<Rightarrow> nat \<Rightarrow> 32 word" where
  "currently_asserted_mask aic s c =
     horner_sum of_bool 2 (map (orgates s c) [0..<num_lines aic])"

text \<open>
  Modelled from the spec: the OR gate in front of each channel (the \<open>TYPE_OR_IRQ\<close>
  device) is not part of the source file. The specification takes it as a collaborator
  that presents the asserted sources of a channel as a mask and then calls the
  controller. \<open>notify c m\<close> sets the lines of the gate of channel \<open>c\<close> to the bits of
  \<open>m\<close> and calls \<open>aspeed_intc_set_irq\<close> with the OR of the lines as level.
\<close>

definition notify ::
  "AspeedINTCClass \<Rightarrow> nat \<Rightarrow> 32 word \<Rightarrow> AspeedINTCState \<Rightarrow> AspeedINTCState" where
  "notify aic c m s =
     (let s1 = s\<lparr>orgates := (orgates s)(c := bit m)\<rparr>
      in aspeed_intc_set_irq aic s1 c
           (if currently_asserted_mask aic s1 c = 0 then 0 else 1))"

text \<open>The device after realize and reset, with every source line and output line low.\<close>

definition power_on :: AspeedINTCState where
  "power_on = \<lparr>regs = (\<lambda>_. 0), enable = (\<lambda>_. 0), mask_bits = (\<lambda>_. 0),
     pending = (\<lambda>_. 0), orgates = (\<lambda>_ _. False), output_pins = (\<lambda>_. 0)\<rparr>"

text \<open>Sequences of operations, for statements about the states the device can reach.\<close>

datatype intc_op =
  Notify nat "32 word"
  | WriteEnable nat "32 word"
  | WriteStatus nat "32 word"

fun apply_op :: "AspeedINTCClass \<Rightarrow> intc_op \<Rightarrow> AspeedINTCState \<Rightarrow> AspeedINTCState" where
  "apply_op aic (Notify c m) s = notify aic c m s"
| "apply_op aic (WriteEnable c v) s = write_enable aic c v s"
| "apply_op aic (WriteStatus c v) s = write_status aic c v s"

fun op_channel :: "intc_op \<Rightarrow> nat" where
  "op_channel (Notify c m) = c"
| "op_channel (WriteEnable c v) = c"
| "op_channel (WriteStatus c v) = c"

definition run :: "AspeedINTCClass \<Rightarrow> intc_op list \<Rightarrow> AspeedINTCState \<Rightarrow> AspeedINTCState" where
  "run aic ops s = fold (apply_op aic) ops s"

text \<open>
  The output line of channel \<open>c\<close> is output pin \<open>c\<close> (\<open>outpin_idx = irq\<close> in both
  callers of \<open>aspeed_intc_update\<close>); it is high when its level is not 0.
\<close>

definition line_high :: "AspeedINTCState \<Rightarrow> nat \<Rightarrow> bool" where
  "line_high s c = (output_pins s c \<noteq> 0)"

definition lockstep :: "AspeedINTCState \<Rightarrow> nat \<Rightarrow> bool" where
  "lockstep s c = ((status s c \<noteq> 0) = line_high s c)"

text \<open>One direction of the lockstep: a latched status has its line high.\<close>

definition status_implies_line :: "AspeedINTCState \<Rightarrow> nat \<Rightarrow> bool" where
  "status_implies_line s c = (status s c \<noteq> 0 \<longrightarrow> line_high s c)"

text \<open>
  The raw enable register of a channel holds no bit outside \<open>enable\<close>. The enable
  handler keeps this, since every value it stores is ORed into \<open>enable\<close> or already
  within it.
\<close>

definition raw_within_enable :: "AspeedINTCState \<Rightarrow> nat \<Rightarrow> bool" where
  "raw_within_enable s c = (regs s (enable_reg c) AND NOT (enable s c) = 0)"

text \<open>Everything the device holds for one channel, and the level of its output line.\<close>

definition channel_view ::
  "AspeedINTCState \<Rightarrow> nat \<Rightarrow> 32 word \<times> 32 word \<times> 32 word \<times> 32 word \<times> 32 word \<times> int" where
  "channel_view s c =
     (enable s c, mask_bits s c, pending s c, regs s (enable_reg c), regs s (status_reg c),
      output_pins s c)"

subsection \<open>Example states\<close>

text \<open>
  Channel 0 after firmware enabled sources 0 and 1 with \<open>write_enable(0, 0b11)\<close>, both
  sources asserted at the OR gate, nothing latched yet.
\<close>

definition two_enabled :: AspeedINTCState where
  "two_enabled = power_on\<lparr>regs := (regs power_on)(enable_reg 0 := 3),
     enable := (enable power_on)(0 := 3),
     orgates := (orgates power_on)(0 := bit (3 :: 32 word))\<rparr>"

text \<open>
  The same channel after \<open>notify\<close> latched both sources: status \<open>0b11\<close>, line high.
\<close>

definition latched :: AspeedINTCState where
  "latched = two_enabled\<lparr>regs := (regs two_enabled)(status_reg 0 := 3),
     output_pins := (output_pins two_enabled)(0 := 1)\<rparr>"

text \<open>The latched channel with source 1 queued again in \<open>pending\<close>.\<close>

definition latched_pending :: AspeedINTCState where
  "latched_pending = latched\<lparr>pending := (pending latched)(0 := 2)\<rparr>"

text \<open>Channel 0 with source 0 enabled, no source asserted, nothing latched or queued.\<close>

definition enabled_idle :: AspeedINTCState where
  "enabled_idle = power_on\<lparr>regs := (regs power_on)(enable_reg 0 := 1),
     enable := (enable power_on)(0 := 1)\<rparr>"

section \<open>Auxiliary facts\<close>

subsection \<open>Conversions between the 32-bit registers and the 64-bit bus value\<close>

lemma ucast_down_up: "(ucast (ucast (v :: 32 word) :: 64 word) :: 32 word) = v"
  by (auto simp: bit_eq_iff bit_simps)

lemma ucast_up_inj: "(ucast (a :: 32 word) :: 64 word) = ucast b \<longleftrightarrow> a = b"
  by (metis ucast_down_up)

lemma ucast_up_eq_0: "(ucast (v :: 32 word) :: 64 word) = 0 \<longleftrightarrow> v = 0"
  using ucast_up_inj [of v 0] by simp

lemma ucast_up_ones: "(ucast (v :: 32 word) :: 64 word) = 0xffffffff \<longleftrightarrow> v = - 1"
proof -
  have "(0xffffffff :: 64 word) = ucast (- 1 :: 32 word)"
    by (simp add: unsigned_minus_1_eq_mask mask_eq_exp_minus_1)
  then show ?thesis by (simp only: ucast_up_inj)
qed

lemma and_not_narrow:
  "(ucast ((ucast (r :: 32 word) :: 64 word) AND NOT (ucast (v :: 32 word))) :: 32 word)
     = r AND NOT v"
  by (auto simp: bit_eq_iff bit_simps)

lemma or_narrow:
  "(ucast ((ucast (r :: 32 word) :: 64 word) OR (ucast (v :: 32 word))) :: 32 word) = r OR v"
  by (auto simp: bit_eq_iff bit_simps)

lemma xor_narrow:
  "(ucast ((ucast (r :: 32 word) :: 64 word) XOR (ucast (v :: 32 word))) :: 32 word) = r XOR v"
  by (auto simp: bit_eq_iff bit_simps)

lemma and_wide_0:
  "(ucast (r :: 32 word) :: 64 word) AND (ucast (v :: 32 word)) = 0 \<longleftrightarrow> r AND v = 0"
  using ucast_up_eq_0 [of "r AND v"] by (simp add: unsigned_and_eq)

lemma or_eq_iff: "(e OR v = e) \<longleftrightarrow> (v AND NOT e = 0)" for e v :: "32 word"
  by (auto simp: bit_eq_iff bit_simps)

subsection \<open>Offsets of the nine channels\<close>

lemma chan_cases:
  "c < 9 \<Longrightarrow>
     c = 0 \<or> c = 1 \<or> c = 2 \<or> c = 3 \<or> c = 4 \<or> c = 5 \<or> c = 6 \<or> c = 7 \<or> c = (8::nat)"
  by arith

lemma enable_reg_eq: "enable_reg c = 64 * c"
  by (simp add: enable_reg_def R_GICINT128_EN_def)

lemma status_reg_eq: "status_reg c = 64 * c + 1"
  by (simp add: status_reg_def GICINT_STATUS_BASE_def R_GICINT128_STATUS_def)

lemma reg_of_en: "c < 9 \<Longrightarrow> reg_of (en_offset c) = enable_reg c"
  using chan_cases [of c] by (auto simp: reg_of_def en_offset_def enable_reg_eq)

lemma irq_of_en: "c < 9 \<Longrightarrow> irq_of (en_offset c) = c"
  using chan_cases [of c] by (auto simp: irq_of_def en_offset_def)

lemma reg_of_status: "c < 9 \<Longrightarrow> reg_of (status_offset c) = status_reg c"
  using chan_cases [of c] by (auto simp: reg_of_def status_offset_def status_reg_eq)

lemma irq_of_status: "c < 9 \<Longrightarrow> irq_of (status_offset c) = c"
  using chan_cases [of c] by (auto simp: irq_of_def status_offset_def)

subsection \<open>The selection loop\<close>

lemma BIT_test: "((ucast (en :: 32 word) :: 64 word) AND BIT i \<noteq> 0) \<longleftrightarrow> bit en i"
proof -
  have "(ucast en :: 64 word) AND 2 ^ i = 0 \<longleftrightarrow> \<not> bit (ucast en :: 64 word) i"
    by (rule and_exp_eq_0_iff_not_bit)
  moreover have "bit (ucast en :: 64 word) i \<longleftrightarrow> bit en i"
    by (auto simp: bit_simps dest: bit_imp_le_length)
  ultimately show ?thesis by (simp add: BIT_def)
qed

lemma bit_or_BIT:
  "bit (ucast ((ucast (sel :: 32 word) :: 64 word) OR BIT i) :: 32 word) k
     \<longleftrightarrow> bit sel k \<or> (k = i \<and> i < 32)"
proof -
  have "bit (BIT i) k \<longleftrightarrow> k = i \<and> i < 64"
    by (auto simp: BIT_def bit_simps simp del: push_bit_of_1)
  then show ?thesis
    by (auto simp: bit_simps dest: bit_imp_le_length)
qed

lemma bit_select_step:
  "bit (select_step levels en i sel) k \<longleftrightarrow> bit sel k \<or> (k = i \<and> levels i \<and> bit en i)"
  by (auto simp: select_step_def BIT_test bit_or_BIT dest: bit_imp_le_length)

lemma select_loop_Suc:
  "select_loop (Suc n) levels en = select_step levels en n (select_loop n levels en)"
  by (simp add: select_loop_def)

lemma bit_select_loop:
  "bit (select_loop n levels en) k \<longleftrightarrow> k < n \<and> levels k \<and> bit en k"
proof (induction n)
  case 0
  then show ?case by (simp add: select_loop_def)
next
  case (Suc n)
  then show ?case
    by (auto simp: select_loop_Suc bit_select_step less_Suc_eq)
qed

lemma select_loop_eq:
  "select_loop (num_lines aic) (orgates s c) en = currently_asserted_mask aic s c AND en"
  by (rule bit_eqI)
    (auto simp: bit_select_loop currently_asserted_mask_def bit_simps dest: bit_imp_le_length)

subsection \<open>The three handlers on a valid channel, in 32-bit terms\<close>

lemma set_irq_eq:
  assumes "c < num_inpins aic"
  shows "aspeed_intc_set_irq aic s c level =
    (if level = 0 \<or> currently_asserted_mask aic s c AND enable s c = 0 then s
     else if mask_bits s c \<noteq> 0 \<or> status s c \<noteq> 0 then
       s\<lparr>pending := (pending s)(c :=
            pending s c OR (currently_asserted_mask aic s c AND enable s c))\<rparr>
     else aspeed_intc_update aic
       (s\<lparr>regs := (regs s)(status_reg c :=
             currently_asserted_mask aic s c AND enable s c)\<rparr>) c c 1)"
  using assms
  by (simp add: aspeed_intc_set_irq_def Let_def select_loop_eq status_def status_reg_def)

lemma write_enable_eq:
  assumes "c < num_inpins aic" "c < 9"
  shows "write_enable aic c v s =
    (if v = 0 \<and> enable s c = 0 then s\<lparr>regs := (regs s)(enable_reg c := v)\<rparr>
     else if v AND NOT (enable s c) \<noteq> 0 then
       s\<lparr>enable := (enable s)(c := enable s c OR v), regs := (regs s)(enable_reg c := v)\<rparr>
     else if (regs s (enable_reg c) XOR v) AND v \<noteq> 0 then
       s\<lparr>mask_bits := (mask_bits s)(c := mask_bits s c AND NOT (regs s (enable_reg c) XOR v)),
         regs := (regs s)(enable_reg c := v)\<rparr>
     else
       s\<lparr>mask_bits := (mask_bits s)(c := mask_bits s c OR (regs s (enable_reg c) XOR v)),
         regs := (regs s)(enable_reg c := v)\<rparr>)"
proof (cases "v AND NOT (enable s c) = 0")
  case True
  then have same: "enable s c OR v = enable s c"
    by (simp add: or_eq_iff)
  show ?thesis
    using assms True
    by (simp add: write_enable_def aspeed_intc_enable_handler_def Let_def reg_of_en
        irq_of_en ucast_up_eq_0 ucast_down_up or_narrow xor_narrow and_wide_0 same)
next
  case False
  then have diff: "enable s c OR v \<noteq> enable s c" "enable s c \<noteq> enable s c OR v"
    by (simp_all add: or_eq_iff eq_commute [of "enable s c"])
  from False have "v \<noteq> 0" by auto
  then show ?thesis
    using assms False
    by (simp add: write_enable_def aspeed_intc_enable_handler_def Let_def reg_of_en
        irq_of_en ucast_up_eq_0 ucast_down_up or_narrow diff)
qed

lemma write_status_eq:
  assumes "c < num_inpins aic" "c < 9"
  shows "write_status aic c v s =
    (if v = 0 then s
     else if v = - 1 then s\<lparr>regs := (regs s)(status_reg c := 0)\<rparr>
     else if status s c AND NOT v \<noteq> 0 then
       s\<lparr>regs := (regs s)(status_reg c := status s c AND NOT v)\<rparr>
     else if pending s c \<noteq> 0 then
       aspeed_intc_update aic
         (s\<lparr>regs := (regs s)(status_reg c := pending s c),
            pending := (pending s)(c := 0)\<rparr>) c c 1
     else aspeed_intc_update aic (s\<lparr>regs := (regs s)(status_reg c := 0)\<rparr>) c c 0)"
  using assms
  by (simp add: write_status_def aspeed_intc_status_handler_def Let_def reg_of_status
      irq_of_status ucast_up_eq_0 ucast_up_ones and_not_narrow status_def)

subsection \<open>Output drive and asserted mask\<close>

lemma asserted_mask_bits:
  "orgates s c = bit m \<Longrightarrow> currently_asserted_mask aic s c = take_bit (num_lines aic) m"
  by (simp add: currently_asserted_mask_def horner_sum_bit_eq_take_bit)

lemma update_eq:
  "c < num_inpins aic \<Longrightarrow> c < num_outpins aic \<Longrightarrow>
   aspeed_intc_update aic s c c level = s\<lparr>output_pins := (output_pins s)(c := level)\<rparr>"
  by (simp add: aspeed_intc_update_def)

subsection \<open>Small facts used by several claims\<close>

lemma all_ones: "(0xFFFFFFFF :: 32 word) = - 1"
  by simp

lemma chan0: "(0::nat) < num_inpins aspeed_2700_intc_class"
  "num_inpins aspeed_2700_intc_class \<le> 9"
  "(0::nat) < num_outpins aspeed_2700_intc_class"
  by (simp_all add: aspeed_2700_intc_class_def)

lemma reg_distinct:
  "c' \<noteq> c \<Longrightarrow> enable_reg c' \<noteq> enable_reg c"
  "c' \<noteq> c \<Longrightarrow> status_reg c' \<noteq> status_reg c"
  "enable_reg c' \<noteq> status_reg c"
  "status_reg c' \<noteq> enable_reg c"
  by (simp_all add: enable_reg_eq status_reg_eq) presburger+

lemma channel_view_update:
  "c' \<noteq> c \<Longrightarrow> channel_view (aspeed_intc_update aic s c c level) c' = channel_view s c'"
  by (simp add: aspeed_intc_update_def channel_view_def)

subsection \<open>Notification through the OR gate\<close>

lemma notify_eq:
  assumes "c < num_inpins aic"
  shows "notify aic c m s =
    (let s1 = s\<lparr>orgates := (orgates s)(c := bit m)\<rparr>;
         select = take_bit (num_lines aic) m AND enable s c
     in if select = 0 then s1
        else if mask_bits s c \<noteq> 0 \<or> status s c \<noteq> 0 then
          s1\<lparr>pending := (pending s)(c := pending s c OR select)\<rparr>
        else aspeed_intc_update aic (s1\<lparr>regs := (regs s)(status_reg c := select)\<rparr>) c c 1)"
proof -
  have m: "currently_asserted_mask aic (s\<lparr>orgates := (orgates s)(c := bit m)\<rparr>) c
      = take_bit (num_lines aic) m"
    by (simp add: asserted_mask_bits [where m = m])
  have z: "take_bit (num_lines aic) m = 0 \<Longrightarrow> take_bit (num_lines aic) m AND enable s c = 0"
    by simp
  show ?thesis
    using assms z
    by (auto simp: notify_def Let_def set_irq_eq m status_def)
qed

lemma notify_twice_eq:
  assumes "c < num_inpins aic"
    and "status s c = 0" and "mask_bits s c = 0" and "pending s c = 0"
  shows "notify aic c m (notify aic c m s) =
    (notify aic c m s)\<lparr>pending :=
       (pending (notify aic c m s))(c := take_bit (num_lines aic) m AND enable s c)\<rparr>"
proof (cases "take_bit (num_lines aic) m AND enable s c = 0")
  case True
  have "(pending s)(c := 0) = pending s"
    using assms(4) by (simp add: fun_upd_idem)
  with True assms show ?thesis
    by (simp add: notify_eq Let_def status_def)
next
  case False
  with assms show ?thesis
    by (simp add: notify_eq Let_def status_def aspeed_intc_update_def)
qed

lemma notify_quiesced_pending:
  assumes "c < num_inpins aic" and "pending s c = 0"
    and "status s c = 0" and "mask_bits s c = 0"
  shows "pending (notify aic c m s) c = 0"
  using assms by (simp add: notify_eq Let_def aspeed_intc_update_def)

subsection \<open>Operations on one channel do not reach another\<close>

lemma frame_set_irq:
  "c < num_inpins aic \<Longrightarrow> c' \<noteq> c \<Longrightarrow>
   channel_view (aspeed_intc_set_irq aic s c level) c' = channel_view s c'"
  by (simp add: set_irq_eq channel_view_update) (simp add: channel_view_def reg_distinct)

lemma frame_notify:
  "c < num_inpins aic \<Longrightarrow> c' \<noteq> c \<Longrightarrow>
   channel_view (notify aic c m s) c' = channel_view s c'"
  by (simp add: notify_def Let_def frame_set_irq) (simp add: channel_view_def)

lemma frame_write_enable:
  "c < num_inpins aic \<Longrightarrow> c < 9 \<Longrightarrow> c' \<noteq> c \<Longrightarrow>
   channel_view (write_enable aic c v s) c' = channel_view s c'"
  by (simp add: write_enable_eq channel_view_def reg_distinct)

lemma frame_write_status:
  "c < num_inpins aic \<Longrightarrow> c < 9 \<Longrightarrow> c' \<noteq> c \<Longrightarrow>
   channel_view (write_status aic c v s) c' = channel_view s c'"
  by (simp add: write_status_eq channel_view_update) (simp add: channel_view_def reg_distinct)

lemma frame_apply_op:
  assumes "op_channel op < num_inpins aic" and "num_inpins aic \<le> 9" and "c' \<noteq> op_channel op"
  shows "channel_view (apply_op aic op s) c' = channel_view s c'"
proof -
  from assms have "op_channel op < 9" by simp
  with assms show ?thesis
    by (cases op) (simp_all add: frame_notify frame_write_enable frame_write_status)
qed

lemma view_status: "channel_view s' c = channel_view s c \<Longrightarrow> status s' c = status s c"
  by (simp add: channel_view_def status_def)

lemma view_line: "channel_view s' c = channel_view s c \<Longrightarrow> line_high s' c = line_high s c"
  by (simp add: channel_view_def line_high_def)

subsection \<open>Status and output line along a run\<close>

lemma same_channel_half:
  assumes "c < num_inpins aic" and "c < 9" and "c < num_outpins aic"
    and "op_channel op = c" and "status_implies_line s c"
  shows "status_implies_line (apply_op aic op s) c"
proof (cases op)
  case (Notify c2 m)
  with assms show ?thesis
    by (auto simp: status_implies_line_def notify_eq Let_def update_eq status_def line_high_def)
next
  case (WriteEnable c2 v)
  with assms show ?thesis
    by (auto simp: status_implies_line_def write_enable_eq status_def line_high_def reg_distinct)
next
  case (WriteStatus c2 v)
  with assms show ?thesis
    by (auto simp: status_implies_line_def write_status_eq update_eq status_def line_high_def)
qed

lemma same_channel_lockstep:
  assumes "c < num_inpins aic" and "c < 9" and "c < num_outpins aic"
    and "op_channel op = c" and "op \<noteq> WriteStatus c (- 1)" and "lockstep s c"
  shows "lockstep (apply_op aic op s) c"
proof (cases op)
  case (Notify c2 m)
  with assms show ?thesis
    by (auto simp: lockstep_def notify_eq Let_def update_eq status_def line_high_def)
next
  case (WriteEnable c2 v)
  with assms show ?thesis
    by (auto simp: lockstep_def write_enable_eq status_def line_high_def reg_distinct)
next
  case (WriteStatus c2 v)
  with assms have "v \<noteq> - 1" and "c2 = c" by auto
  with WriteStatus assms(1,2,3,6) show ?thesis
    by (auto simp: lockstep_def write_status_eq update_eq status_def line_high_def)
qed

lemma step_half:
  assumes "c < num_inpins aic" and "num_inpins aic \<le> 9" and "c < num_outpins aic"
    and "op_channel op < num_inpins aic" and "status_implies_line s c"
  shows "status_implies_line (apply_op aic op s) c"
proof (cases "op_channel op = c")
  case True
  from assms(1,2) have "c < 9" by simp
  with assms(1) show ?thesis
    using assms(3) True assms(5) by (rule same_channel_half)
next
  case False
  then have "c \<noteq> op_channel op" by simp
  with assms(4,2) have "channel_view (apply_op aic op s) c = channel_view s c"
    by (rule frame_apply_op)
  then have "status (apply_op aic op s) c = status s c"
    and "line_high (apply_op aic op s) c = line_high s c"
    by (rule view_status, rule view_line)
  with assms(5) show ?thesis
    by (simp add: status_implies_line_def)
qed

lemma step_lockstep:
  assumes "c < num_inpins aic" and "num_inpins aic \<le> 9" and "c < num_outpins aic"
    and "op_channel op < num_inpins aic" and "op \<noteq> WriteStatus c (- 1)" and "lockstep s c"
  shows "lockstep (apply_op aic op s) c"
proof (cases "op_channel op = c")
  case True
  from assms(1,2) have "c < 9" by simp
  with assms(1) show ?thesis
    using assms(3) True assms(5,6) by (rule same_channel_lockstep)
next
  case False
  then have "c \<noteq> op_channel op" by simp
  with assms(4,2) have "channel_view (apply_op aic op s) c = channel_view s c"
    by (rule frame_apply_op)
  then have "status (apply_op aic op s) c = status s c"
    and "line_high (apply_op aic op s) c = line_high s c"
    by (rule view_status, rule view_line)
  with assms(6) show ?thesis
    by (simp add: lockstep_def)
qed

lemma run_half:
  assumes "c < num_inpins aic" and "num_inpins aic \<le> 9" and "c < num_outpins aic"
  shows "\<forall>op\<in>set ops. op_channel op < num_inpins aic \<Longrightarrow> status_implies_line s c \<Longrightarrow>
    status_implies_line (run aic ops s) c"
proof (induction ops arbitrary: s)
  case Nil
  then show ?case by (simp add: run_def)
next
  case (Cons op ops)
  from Cons.prems have "status_implies_line (apply_op aic op s) c"
    using assms by (simp add: step_half)
  moreover from Cons.prems have "\<forall>op\<in>set ops. op_channel op < num_inpins aic" by simp
  ultimately have "status_implies_line (run aic ops (apply_op aic op s)) c"
    by (rule Cons.IH [rotated])
  then show ?case by (simp add: run_def)
qed

lemma run_lockstep:
  assumes "c < num_inpins aic" and "num_inpins aic \<le> 9" and "c < num_outpins aic"
  shows "\<forall>op\<in>set ops. op_channel op < num_inpins aic \<Longrightarrow>
    WriteStatus c (- 1) \<notin> set ops \<Longrightarrow> lockstep s c \<Longrightarrow>
    lockstep (run aic ops s) c"
proof (induction ops arbitrary: s)
  case Nil
  then show ?case by (simp add: run_def)
next
  case (Cons op ops)
  from Cons.prems have v: "op_channel op < num_inpins aic" and n: "op \<noteq> WriteStatus c (- 1)"
    by auto
  have "lockstep (apply_op aic op s) c"
    using assms v n Cons.prems(3) by (rule step_lockstep)
  moreover from Cons.prems have "\<forall>op\<in>set ops. op_channel op < num_inpins aic"
    and "WriteStatus c (- 1) \<notin> set ops" by simp_all
  ultimately have "lockstep (run aic ops (apply_op aic op s)) c"
    using Cons.IH by blast
  then show ?case by (simp add: run_def)
qed

subsection \<open>Evaluating runs and register writes\<close>

lemma num_lines_2700: "num_lines aspeed_2700_intc_class = 32"
  by (simp add: aspeed_2700_intc_class_def)

lemma run_Cons: "run aic (op # ops) s = run aic ops (apply_op aic op s)"
  by (simp add: run_def)

lemma run_Nil: "run aic [] s = s"
  by (simp add: run_def)

lemmas eval_ops = run_Cons run_Nil apply_op.simps notify_eq write_enable_eq write_status_eq
  chan0 num_lines_2700 Let_def update_eq status_def line_high_def power_on_def
  enable_reg_eq status_reg_eq

lemma write_en_dispatch:
  "c < 9 \<Longrightarrow> aspeed_intc_write aic s (en_offset c) (ucast v) = write_enable aic c v s"
  using chan_cases [of c]
  by (auto simp: aspeed_intc_write_def write_enable_def Let_def reg_of_en enable_reg_eq
      R_GICINT128_EN_def R_GICINT129_EN_def R_GICINT130_EN_def R_GICINT131_EN_def
      R_GICINT132_EN_def R_GICINT133_EN_def R_GICINT134_EN_def R_GICINT135_EN_def
      R_GICINT136_EN_def)

lemma write_status_dispatch:
  "c < 9 \<Longrightarrow> aspeed_intc_write aic s (status_offset c) (ucast v) = write_status aic c v s"
  using chan_cases [of c]
  by (auto simp: aspeed_intc_write_def write_status_def Let_def reg_of_status status_reg_eq
      R_GICINT128_EN_def R_GICINT129_EN_def R_GICINT130_EN_def R_GICINT131_EN_def
      R_GICINT132_EN_def R_GICINT133_EN_def R_GICINT134_EN_def R_GICINT135_EN_def
      R_GICINT136_EN_def
      R_GICINT128_STATUS_def R_GICINT129_STATUS_def R_GICINT130_STATUS_def
      R_GICINT131_STATUS_def R_GICINT132_STATUS_def R_GICINT133_STATUS_def
      R_GICINT134_STATUS_def R_GICINT135_STATUS_def R_GICINT136_STATUS_def)

subsection \<open>The raw enable register stays within the enabled sources\<close>

lemma view_raw:
  "channel_view s' c = channel_view s c \<Longrightarrow> raw_within_enable s' c = raw_within_enable s c"
  by (simp add: channel_view_def raw_within_enable_def)

lemma same_channel_raw:
  assumes "c < num_inpins aic" and "c < 9" and "op_channel op = c"
    and "raw_within_enable s c"
  shows "raw_within_enable (apply_op aic op s) c"
proof (cases op)
  case (Notify c2 m)
  with assms show ?thesis
    by (simp add: raw_within_enable_def notify_eq Let_def aspeed_intc_update_def reg_distinct)
next
  case (WriteEnable c2 v)
  have sub: "v AND NOT (e OR v) = 0" for e :: "32 word"
    by (auto simp: bit_eq_iff bit_simps)
  from WriteEnable assms show ?thesis
    using sub [of "enable s c"]
    by (simp add: raw_within_enable_def write_enable_eq del: bit.de_Morgan_disj)
next
  case (WriteStatus c2 v)
  with assms show ?thesis
    by (simp add: raw_within_enable_def write_status_eq aspeed_intc_update_def reg_distinct)
qed

lemma step_raw:
  assumes "num_inpins aic \<le> 9" and "op_channel op < num_inpins aic"
    and "raw_within_enable s c"
  shows "raw_within_enable (apply_op aic op s) c"
proof (cases "op_channel op = c")
  case True
  from assms(1,2) True have "c < num_inpins aic" and "c < 9" by simp_all
  then show ?thesis
    using True assms(3) by (rule same_channel_raw)
next
  case False
  then have "c \<noteq> op_channel op" by simp
  with assms(2,1) have "channel_view (apply_op aic op s) c = channel_view s c"
    by (rule frame_apply_op)
  then have "raw_within_enable (apply_op aic op s) c = raw_within_enable s c"
    by (rule view_raw)
  with assms(3) show ?thesis by simp
qed

lemma run_raw:
  assumes "num_inpins aic \<le> 9"
  shows "\<forall>op\<in>set ops. op_channel op < num_inpins aic \<Longrightarrow> raw_within_enable s c \<Longrightarrow>
    raw_within_enable (run aic ops s) c"
proof (induction ops arbitrary: s)
  case Nil
  then show ?case by (simp add: run_def)
next
  case (Cons op ops)
  from Cons.prems have v: "op_channel op < num_inpins aic" by simp
  have "raw_within_enable (apply_op aic op s) c"
    using assms v Cons.prems(2) by (rule step_raw)
  moreover from Cons.prems have "\<forall>op\<in>set ops. op_channel op < num_inpins aic" by simp
  ultimately have "raw_within_enable (run aic ops (apply_op aic op s)) c"
    using Cons.IH by blast
  then show ?case by (simp add: run_def)
qed

lemma raw_power_on: "raw_within_enable power_on c"
  by (simp add: raw_within_enable_def power_on_def)

lemma toggle_uniform:
  assumes "c < num_inpins aic" and "c < 9"
    and "raw_within_enable s c" and "v AND NOT (enable s c) = 0"
  shows "mask_bits (write_enable aic c v s) c =
           (let change = regs s (enable_reg c) XOR v
            in if change AND v \<noteq> 0 then mask_bits s c AND NOT change
               else mask_bits s c OR change)"
proof (cases "v = 0 \<and> enable s c = 0")
  case True
  with assms(3) have "regs s (enable_reg c) = 0"
    by (simp add: raw_within_enable_def)
  with True assms(1,2) show ?thesis
    by (simp add: write_enable_eq)
next
  case False
  with assms(1,2,4) show ?thesis
    by (auto simp: write_enable_eq Let_def)
qed

section \<open>The claims\<close>

subsection \<open>Source notification\<close>

text \<open>
  Claim C2. On a valid channel \<open>c\<close> whose output line exists, a call of
  \<open>aspeed_intc_set_irq\<close> with an asserted level computes
  \<open>select = asserted mask AND enable[c]\<close>. With \<open>select = 0\<close> the state is unchanged.
  Otherwise, when the status or the mask of the channel is non-zero, \<open>select\<close> is ORed
  into \<open>pending[c]\<close> and nothing else changes; when both are zero, the status register
  becomes \<open>select\<close> and output line \<open>c\<close> is driven to 1.
\<close>

theorem notify_algorithm:
  assumes "c < num_inpins aic" and "c < num_outpins aic" and "level \<noteq> 0"
  shows "aspeed_intc_set_irq aic s c level =
    (let select = currently_asserted_mask aic s c AND enable s c
     in if select = 0 then s
        else if status s c \<noteq> 0 \<or> mask_bits s c \<noteq> 0 then
          s\<lparr>pending := (pending s)(c := pending s c OR select)\<rparr>
        else
          s\<lparr>regs := (regs s)(status_reg c := select),
            output_pins := (output_pins s)(c := 1)\<rparr>)"
  using assms by (auto simp: set_irq_eq update_eq Let_def)

theorem notify_algorithm_witness:
  "(0::nat) < num_inpins aspeed_2700_intc_class \<and> 0 < num_outpins aspeed_2700_intc_class \<and>
   (1::int) \<noteq> 0 \<and>
   aspeed_intc_set_irq aspeed_2700_intc_class two_enabled 0 1 =
     two_enabled\<lparr>regs := (regs two_enabled)(status_reg 0 := 3),
       output_pins := (output_pins two_enabled)(0 := 1)\<rparr>"
proof -
  have m: "currently_asserted_mask aspeed_2700_intc_class two_enabled 0 = 3"
    by (simp add: asserted_mask_bits [where m = 3] two_enabled_def aspeed_2700_intc_class_def)
  have e: "enable two_enabled 0 = 3" "status two_enabled 0 = 0" "mask_bits two_enabled 0 = 0"
    by (simp_all add: two_enabled_def power_on_def status_def status_reg_eq enable_reg_eq)
  have h: "(0::nat) < num_inpins aspeed_2700_intc_class"
    "(0::nat) < num_outpins aspeed_2700_intc_class" "(1::int) \<noteq> 0"
    by (simp_all add: aspeed_2700_intc_class_def)
  show ?thesis
    using h notify_algorithm [OF h, of two_enabled]
    by (simp add: m e Let_def)
qed

subsection \<open>Status register write\<close>

text \<open>
  Claim C3. On a valid channel \<open>c\<close> whose output line exists, \<open>write_status(c, v)\<close>
  with \<open>v\<close> neither 0 nor \<open>0xFFFFFFFF\<close> clears the bits of \<open>v\<close> from the status. If
  the result is 0 and \<open>pending[c]\<close> is not, the status becomes \<open>pending[c]\<close>,
  \<open>pending[c]\<close> becomes 0 and the line is driven to 1; if the result is 0 and nothing is
  pending, the line is driven to 0; if the result is not 0, only the status register
  changes.
\<close>

theorem write_status_ack:
  assumes "c < num_inpins aic" and "num_inpins aic \<le> 9" and "c < num_outpins aic"
    and "v \<noteq> 0" and "v \<noteq> 0xFFFFFFFF"
  shows "write_status aic c v s =
    (let cleared = status s c AND NOT v
     in if cleared = 0 then
          (if pending s c \<noteq> 0 then
             s\<lparr>regs := (regs s)(status_reg c := pending s c),
               pending := (pending s)(c := 0),
               output_pins := (output_pins s)(c := 1)\<rparr>
           else
             s\<lparr>regs := (regs s)(status_reg c := 0),
               output_pins := (output_pins s)(c := 0)\<rparr>)
        else s\<lparr>regs := (regs s)(status_reg c := cleared)\<rparr>)"
proof -
  from assms have "c < 9" and "v \<noteq> - 1" by (simp_all add: all_ones)
  with assms show ?thesis
    by (simp add: write_status_eq update_eq Let_def)
qed

theorem write_status_ack_witness:
  "(0::nat) < num_inpins aspeed_2700_intc_class \<and> num_inpins aspeed_2700_intc_class \<le> 9 \<and>
   0 < num_outpins aspeed_2700_intc_class \<and> (3 :: 32 word) \<noteq> 0 \<and> (3 :: 32 word) \<noteq> 0xFFFFFFFF \<and>
   write_status aspeed_2700_intc_class 0 3 latched_pending =
     latched_pending\<lparr>regs := (regs latched_pending)(status_reg 0 := 2),
       pending := (pending latched_pending)(0 := 0),
       output_pins := (output_pins latched_pending)(0 := 1)\<rparr> \<and>
   write_status aspeed_2700_intc_class 0 3 latched =
     latched\<lparr>regs := (regs latched)(status_reg 0 := 0),
       output_pins := (output_pins latched)(0 := 0)\<rparr> \<and>
   write_status aspeed_2700_intc_class 0 1 latched =
     latched\<lparr>regs := (regs latched)(status_reg 0 := 2)\<rparr>"
proof -
  have v: "(3 :: 32 word) \<noteq> 0" "(3 :: 32 word) \<noteq> 0xFFFFFFFF" by simp_all
  have w: "(1 :: 32 word) \<noteq> 0" "(1 :: 32 word) \<noteq> 0xFFFFFFFF" by simp_all
  have e: "status latched_pending 0 = 3" "pending latched_pending 0 = 2"
    "status latched 0 = 3" "pending latched 0 = 0"
    by (simp_all add: latched_pending_def latched_def two_enabled_def power_on_def status_def)
  show ?thesis
    using chan0 v write_status_ack [OF chan0 v, of latched_pending]
      write_status_ack [OF chan0 v, of latched] write_status_ack [OF chan0 w, of latched]
    by (simp add: e Let_def)
qed

text \<open>
  Claim C4. On a valid channel \<open>c\<close>, \<open>write_status(c, 0xFFFFFFFF)\<close> sets the status to
  0 and changes nothing else: \<open>pending\<close> and all output lines keep their values, whatever
  \<open>pending[c]\<close> holds.
\<close>

theorem write_status_all_ones:
  assumes "c < num_inpins aic" and "num_inpins aic \<le> 9"
  shows "status (write_status aic c 0xFFFFFFFF s) c = 0
    \<and> pending (write_status aic c 0xFFFFFFFF s) = pending s
    \<and> output_pins (write_status aic c 0xFFFFFFFF s) = output_pins s
    \<and> write_status aic c 0xFFFFFFFF s = s\<lparr>regs := (regs s)(status_reg c := 0)\<rparr>"
proof -
  from assms have "c < 9" by simp
  with assms show ?thesis
    by (simp add: write_status_eq status_def all_ones)
qed

theorem write_status_all_ones_witness:
  "(0::nat) < num_inpins aspeed_2700_intc_class \<and> num_inpins aspeed_2700_intc_class \<le> 9 \<and>
   status (write_status aspeed_2700_intc_class 0 0xFFFFFFFF latched_pending) 0 = 0 \<and>
   pending (write_status aspeed_2700_intc_class 0 0xFFFFFFFF latched_pending) 0 = 2 \<and>
   output_pins (write_status aspeed_2700_intc_class 0 0xFFFFFFFF latched_pending) 0 = 1"
proof -
  have e: "pending latched_pending 0 = 2" "output_pins latched_pending 0 = 1"
    by (simp_all add: latched_pending_def latched_def)
  show ?thesis
    using chan0(1,2) write_status_all_ones [OF chan0(1,2), of latched_pending]
    by (simp add: e status_def)
qed

subsection \<open>Enable register write\<close>

text \<open>
  Claim C5. On a valid channel \<open>c\<close>, \<open>write_enable(c, v)\<close> with a bit of \<open>v\<close> outside
  \<open>enable[c]\<close> sets \<open>enable[c]\<close> to \<open>enable[c] OR v\<close> and leaves \<open>mask[c]\<close> alone. With no
  new bit, \<open>enable[c]\<close> is unchanged and \<open>mask[c]\<close> is updated from
  \<open>change = raw mirror XOR v\<close>: the bits of \<open>change\<close> are cleared from the mask when
  \<open>change AND v\<close> is not 0 and set otherwise. The write of 0 with nothing enabled returns
  before that and leaves the mask as it is; in every state reached from power-on the raw
  mirror is then 0, so that the update by \<open>change\<close> describes this case as well. No bit
  of \<open>enable[c]\<close> is ever cleared; the raw mirror becomes \<open>v\<close>; pending, status and output
  lines are unchanged.
\<close>

theorem write_enable_cases:
  assumes "c < num_inpins aic" and "num_inpins aic \<le> 9"
  shows "(v AND NOT (enable s c) \<noteq> 0 \<longrightarrow>
            enable (write_enable aic c v s) c = enable s c OR v
          \<and> mask_bits (write_enable aic c v s) c = mask_bits s c)
    \<and> (v AND NOT (enable s c) = 0 \<longrightarrow>
            enable (write_enable aic c v s) c = enable s c
          \<and> mask_bits (write_enable aic c v s) c =
              (let change = regs s (enable_reg c) XOR v
               in if v = 0 \<and> enable s c = 0 then mask_bits s c
                  else if change AND v \<noteq> 0 then mask_bits s c AND NOT change
                  else mask_bits s c OR change))
    \<and> ((\<forall>op\<in>set ops. op_channel op < num_inpins aic) \<longrightarrow>
          (let r = run aic ops power_on
           in v AND NOT (enable r c) = 0 \<longrightarrow>
              mask_bits (write_enable aic c v r) c =
                (let change = regs r (enable_reg c) XOR v
                 in if change AND v \<noteq> 0 then mask_bits r c AND NOT change
                    else mask_bits r c OR change)))
    \<and> enable s c AND NOT (enable (write_enable aic c v s) c) = 0
    \<and> regs (write_enable aic c v s) (enable_reg c) = v
    \<and> pending (write_enable aic c v s) = pending s
    \<and> status (write_enable aic c v s) = status s
    \<and> output_pins (write_enable aic c v s) = output_pins s"
proof -
  from assms have c9: "c < 9" by simp
  have ne: "enable_reg c \<noteq> status_reg c'" "status_reg c' \<noteq> enable_reg c" for c'
    by (rule reg_distinct)+
  have sub: "e AND NOT e AND NOT v = 0" for e :: "32 word"
    by (auto simp: bit_eq_iff bit_simps)
  have reach: "(\<forall>op\<in>set ops. op_channel op < num_inpins aic) \<longrightarrow>
          (let r = run aic ops power_on
           in v AND NOT (enable r c) = 0 \<longrightarrow>
              mask_bits (write_enable aic c v r) c =
                (let change = regs r (enable_reg c) XOR v
                 in if change AND v \<noteq> 0 then mask_bits r c AND NOT change
                    else mask_bits r c OR change))"
  proof (intro impI)
    assume v: "\<forall>op\<in>set ops. op_channel op < num_inpins aic"
    have "raw_within_enable (run aic ops power_on) c"
      using assms(2) v raw_power_on by (rule run_raw)
    then show "let r = run aic ops power_on
           in v AND NOT (enable r c) = 0 \<longrightarrow>
              mask_bits (write_enable aic c v r) c =
                (let change = regs r (enable_reg c) XOR v
                 in if change AND v \<noteq> 0 then mask_bits r c AND NOT change
                    else mask_bits r c OR change)"
      unfolding Let_def
      using toggle_uniform [OF assms(1) c9, of "run aic ops power_on" v]
      by (simp add: Let_def)
  qed
  have rest: "(v AND NOT (enable s c) \<noteq> 0 \<longrightarrow>
            enable (write_enable aic c v s) c = enable s c OR v
          \<and> mask_bits (write_enable aic c v s) c = mask_bits s c)
    \<and> (v AND NOT (enable s c) = 0 \<longrightarrow>
            enable (write_enable aic c v s) c = enable s c
          \<and> mask_bits (write_enable aic c v s) c =
              (let change = regs s (enable_reg c) XOR v
               in if v = 0 \<and> enable s c = 0 then mask_bits s c
                  else if change AND v \<noteq> 0 then mask_bits s c AND NOT change
                  else mask_bits s c OR change))
    \<and> enable s c AND NOT (enable (write_enable aic c v s) c) = 0
    \<and> regs (write_enable aic c v s) (enable_reg c) = v
    \<and> pending (write_enable aic c v s) = pending s
    \<and> status (write_enable aic c v s) = status s
    \<and> output_pins (write_enable aic c v s) = output_pins s"
  proof (cases "v AND NOT (enable s c) = 0")
    case True
    then show ?thesis
      using assms(1) c9
      by (simp add: write_enable_eq Let_def status_def ne fun_eq_iff)
  next
    case False
    then have "v \<noteq> 0" by auto
    with False show ?thesis
      using assms(1) c9
      by (simp add: write_enable_eq Let_def status_def ne sub fun_eq_iff)
  qed
  from rest reach show ?thesis by blast
qed

theorem write_enable_cases_witness:
  "(0::nat) < num_inpins aspeed_2700_intc_class \<and> num_inpins aspeed_2700_intc_class \<le> 9
   \<and> (3 :: 32 word) AND NOT (enable power_on 0) \<noteq> 0
   \<and> enable (write_enable aspeed_2700_intc_class 0 3 power_on) 0 = 3
   \<and> mask_bits (write_enable aspeed_2700_intc_class 0 3 power_on) 0 = 0
   \<and> (2 :: 32 word) AND NOT (enable two_enabled 0) = 0
   \<and> enable (write_enable aspeed_2700_intc_class 0 2 two_enabled) 0 = 3
   \<and> mask_bits (write_enable aspeed_2700_intc_class 0 2 two_enabled) 0 = 1
   \<and> regs (write_enable aspeed_2700_intc_class 0 2 two_enabled) (enable_reg 0) = 2
   \<and> (2 :: 32 word) AND NOT (enable (run aspeed_2700_intc_class [WriteEnable 0 3] power_on) 0) = 0
   \<and> mask_bits (write_enable aspeed_2700_intc_class 0 2
         (run aspeed_2700_intc_class [WriteEnable 0 3] power_on)) 0 = 1"
proof -
  have e: "enable power_on 0 = 0" "mask_bits power_on 0 = 0"
    "enable two_enabled 0 = 3" "mask_bits two_enabled 0 = 0"
    "regs two_enabled (enable_reg 0) = 3"
    by (simp_all add: two_enabled_def power_on_def)
  have r: "enable (run aspeed_2700_intc_class [WriteEnable 0 3] power_on) 0 = 3"
    "regs (run aspeed_2700_intc_class [WriteEnable 0 3] power_on) (enable_reg 0) = 3"
    "mask_bits (run aspeed_2700_intc_class [WriteEnable 0 3] power_on) 0 = 0"
    by (simp_all add: eval_ops)
  have v: "\<forall>op\<in>set [WriteEnable 0 3]. op_channel op < num_inpins aspeed_2700_intc_class"
    by (simp add: chan0)
  show ?thesis
    using chan0(1,2) v write_enable_cases [OF chan0(1,2), of 3 power_on "[]"]
      write_enable_cases [OF chan0(1,2), of 2 two_enabled "[WriteEnable 0 3]"]
    by (simp add: e r Let_def)
qed

subsection \<open>Channel index out of range\<close>

text \<open>
  Claim C9. \<open>aspeed_intc_set_irq\<close> with a pin index of \<open>num_inpins\<close> or more, and both
  write handlers at an offset whose channel field is \<open>num_inpins\<close> or more, return the
  state they were given: no register, bitmask or output line changes.
\<close>

theorem out_of_range_rejected:
  "(num_inpins aic \<le> irq \<longrightarrow> aspeed_intc_set_irq aic s irq level = s)
   \<and> (num_inpins aic \<le> irq_of offset \<longrightarrow>
        aspeed_intc_enable_handler aic s offset data = s
      \<and> aspeed_intc_status_handler aic s offset data = s)"
  by (simp add: aspeed_intc_set_irq_def aspeed_intc_enable_handler_def
      aspeed_intc_status_handler_def Let_def)

theorem out_of_range_rejected_witness:
  "num_inpins aspeed_2700_intc_class \<le> 9
   \<and> aspeed_intc_set_irq aspeed_2700_intc_class two_enabled 9 1 = two_enabled
   \<and> num_inpins aspeed_2700_intc_class \<le> irq_of 0x900
   \<and> num_inpins aspeed_2700_intc_class \<le> irq_of 0x904
   \<and> aspeed_intc_enable_handler aspeed_2700_intc_class two_enabled 0x900 3 = two_enabled
   \<and> aspeed_intc_status_handler aspeed_2700_intc_class two_enabled 0x904 3 = two_enabled"
proof -
  have n: "num_inpins aspeed_2700_intc_class \<le> 9"
    by (simp add: aspeed_2700_intc_class_def)
  have i: "irq_of 0x900 = 9" "irq_of 0x904 = 9"
    by (simp_all add: irq_of_def)
  show ?thesis
    using n i
      out_of_range_rejected [of aspeed_2700_intc_class 9 two_enabled 1 "0x900" 3]
      out_of_range_rejected [of aspeed_2700_intc_class 9 two_enabled 1 "0x904" 3]
    by simp
qed

subsection \<open>Other channels\<close>

text \<open>
  Claim C10. An operation on a valid channel \<open>c\<close> leaves every other channel \<open>c'\<close> as it
  was: its enable, mask and pending bitmasks, its raw enable and status registers, and
  the level of its output line.
\<close>

theorem other_channels_unchanged:
  assumes "c < num_inpins aic" and "num_inpins aic \<le> 9" and "c' \<noteq> c"
  shows "channel_view (aspeed_intc_set_irq aic s c level) c' = channel_view s c'
    \<and> channel_view (write_enable aic c v s) c' = channel_view s c'
    \<and> channel_view (write_status aic c v s) c' = channel_view s c'"
proof -
  from assms have c9: "c < 9" by simp
  have 1: "channel_view (aspeed_intc_set_irq aic s c level) c' = channel_view s c'"
    using assms(1,3)
    by (simp add: set_irq_eq channel_view_update) (simp add: channel_view_def reg_distinct)
  have 2: "channel_view (write_enable aic c v s) c' = channel_view s c'"
    using assms(1,3) c9
    by (simp add: write_enable_eq channel_view_def reg_distinct)
  have 3: "channel_view (write_status aic c v s) c' = channel_view s c'"
    using assms(1,3) c9
    by (simp add: write_status_eq channel_view_update) (simp add: channel_view_def reg_distinct)
  from 1 2 3 show ?thesis by simp
qed

theorem other_channels_unchanged_witness:
  "(0::nat) < num_inpins aspeed_2700_intc_class \<and> num_inpins aspeed_2700_intc_class \<le> 9
   \<and> (1::nat) \<noteq> 0
   \<and> channel_view (aspeed_intc_set_irq aspeed_2700_intc_class two_enabled 0 1) 1
       = channel_view two_enabled 1
   \<and> channel_view (write_enable aspeed_2700_intc_class 0 2 two_enabled) 1
       = channel_view two_enabled 1
   \<and> channel_view (write_status aspeed_2700_intc_class 0 3 latched_pending) 1
       = channel_view latched_pending 1"
proof -
  have n: "(1::nat) \<noteq> 0" by simp
  show ?thesis
    using chan0(1,2) n
      other_channels_unchanged [OF chan0(1,2) n, of two_enabled 1 2]
      other_channels_unchanged [OF chan0(1,2) n, of latched_pending 1 3]
    by simp
qed

subsection \<open>Status and output line\<close>

text \<open>
  Claim C1, as stated, fails: after \<open>write_enable(0, 1)\<close>, \<open>notify(0, 1)\<close> and
  \<open>write_status(0, 0xFFFFFFFF)\<close> from power-on, the status of channel 0 is 0 and its
  output line is still high.
\<close>

theorem lockstep_counterexample:
  "\<not> lockstep (run aspeed_2700_intc_class
       [WriteEnable 0 1, Notify 0 1, WriteStatus 0 0xFFFFFFFF] power_on) 0"
  by (simp add: lockstep_def eval_ops)

text \<open>
  Claim C1, amended. For a valid channel \<open>c\<close> with an output line and any sequence of
  operations on valid channels: if a non-zero status implied a high line before, it does
  so afterwards; the equivalence of non-zero status and high line is kept by every
  sequence without \<open>write_status(c, 0xFFFFFFFF)\<close>; that write sets the status to 0 and
  leaves the line at its level.
\<close>

theorem lockstep_amended:
  assumes "c < num_inpins aic" and "num_inpins aic \<le> 9" and "c < num_outpins aic"
    and "\<forall>op\<in>set ops. op_channel op < num_inpins aic"
  shows "(status_implies_line s c \<longrightarrow> status_implies_line (run aic ops s) c)
    \<and> (WriteStatus c 0xFFFFFFFF \<notin> set ops \<longrightarrow> lockstep s c \<longrightarrow> lockstep (run aic ops s) c)
    \<and> status (write_status aic c 0xFFFFFFFF s) c = 0
    \<and> line_high (write_status aic c 0xFFFFFFFF s) c = line_high s c"
proof -
  from assms have c9: "c < 9" by simp
  have 1: "status_implies_line s c \<longrightarrow> status_implies_line (run aic ops s) c"
    using run_half [OF assms(1,2,3,4)] by simp
  have 2: "WriteStatus c (- 1) \<notin> set ops \<longrightarrow> lockstep s c \<longrightarrow> lockstep (run aic ops s) c"
    using run_lockstep [OF assms(1,2,3,4)] by simp
  have 3: "status (write_status aic c (- 1) s) c = 0"
    "line_high (write_status aic c (- 1) s) c = line_high s c"
    using assms(1) c9 by (simp_all add: write_status_eq status_def line_high_def)
  from 1 2 3 show ?thesis
    unfolding all_ones by simp
qed

theorem lockstep_amended_witness:
  "(0::nat) < num_inpins aspeed_2700_intc_class \<and> num_inpins aspeed_2700_intc_class \<le> 9
   \<and> 0 < num_outpins aspeed_2700_intc_class
   \<and> status_implies_line power_on 0 \<and> lockstep power_on 0
   \<and> status_implies_line (run aspeed_2700_intc_class
         [WriteEnable 0 1, Notify 0 1, WriteStatus 0 0xFFFFFFFF] power_on) 0
   \<and> lockstep (run aspeed_2700_intc_class
         [WriteEnable 0 1, Notify 0 1, WriteStatus 0 1] power_on) 0"
proof -
  have p: "status_implies_line power_on 0" "lockstep power_on 0"
    by (simp_all add: status_implies_line_def lockstep_def status_def line_high_def power_on_def)
  have v: "\<forall>op\<in>set [WriteEnable 0 1, Notify 0 1, WriteStatus 0 0xFFFFFFFF].
      op_channel op < num_inpins aspeed_2700_intc_class"
    "\<forall>op\<in>set [WriteEnable 0 1, Notify 0 1, WriteStatus 0 1].
      op_channel op < num_inpins aspeed_2700_intc_class"
    by (simp_all add: chan0)
  have n: "WriteStatus 0 0xFFFFFFFF \<notin> set [WriteEnable 0 1, Notify 0 1, WriteStatus 0 1]"
    by simp
  show ?thesis
    using chan0 p n lockstep_amended [OF chan0 v(1), of power_on]
      lockstep_amended [OF chan0 v(2), of power_on]
    by simp
qed

subsection \<open>Status and pending\<close>

text \<open>
  Claim C6, as stated, fails: after \<open>write_enable(0, 1)\<close> and two calls of
  \<open>notify(0, 1)\<close> from power-on, source 0 is set in both the status and the pending
  mask of channel 0.
\<close>

theorem disjoint_counterexample:
  "status (run aspeed_2700_intc_class [WriteEnable 0 1, Notify 0 1, Notify 0 1] power_on) 0
     AND pending (run aspeed_2700_intc_class [WriteEnable 0 1, Notify 0 1, Notify 0 1] power_on) 0
   \<noteq> 0"
  by (simp add: eval_ops)

text \<open>
  Claim C6, amended. On a valid channel \<open>c\<close>, \<open>pending[c]\<close> receives bits only from a
  call of \<open>aspeed_intc_set_irq\<close> with an asserted level that finds the status or the mask
  non-zero, and that call leaves the status as it is; a call that finds both zero puts
  the selected bits into the status and leaves \<open>pending[c]\<close> alone. \<open>write_enable\<close> never
  changes \<open>pending[c]\<close>, and \<open>write_status\<close> only clears it, when it drains the status.
\<close>

theorem pending_receives:
  assumes "c < num_inpins aic" and "num_inpins aic \<le> 9"
  shows "pending (aspeed_intc_set_irq aic s c level) c =
           (if level \<noteq> 0 \<and> (status s c \<noteq> 0 \<or> mask_bits s c \<noteq> 0)
            then pending s c OR (currently_asserted_mask aic s c AND enable s c)
            else pending s c)
    \<and> status (aspeed_intc_set_irq aic s c level) c =
           (if level \<noteq> 0 \<and> status s c = 0 \<and> mask_bits s c = 0
            then currently_asserted_mask aic s c AND enable s c
            else status s c)
    \<and> pending (write_enable aic c v s) c = pending s c
    \<and> pending (write_status aic c v s) c =
           (if v \<noteq> 0 \<and> v \<noteq> 0xFFFFFFFF \<and> status s c AND NOT v = 0 then 0
            else pending s c)"
proof -
  from assms have c9: "c < 9" by simp
  have 1: "pending (aspeed_intc_set_irq aic s c level) c =
           (if level \<noteq> 0 \<and> (status s c \<noteq> 0 \<or> mask_bits s c \<noteq> 0)
            then pending s c OR (currently_asserted_mask aic s c AND enable s c)
            else pending s c)"
    using assms(1) by (auto simp: set_irq_eq aspeed_intc_update_def)
  have 2: "status (aspeed_intc_set_irq aic s c level) c =
           (if level \<noteq> 0 \<and> status s c = 0 \<and> mask_bits s c = 0
            then currently_asserted_mask aic s c AND enable s c
            else status s c)"
    using assms(1) by (auto simp: set_irq_eq aspeed_intc_update_def status_def)
  have 3: "pending (write_enable aic c v s) c = pending s c"
    using assms(1) c9 by (simp add: write_enable_eq)
  have 4: "pending (write_status aic c v s) c =
           (if v \<noteq> 0 \<and> v \<noteq> - 1 \<and> status s c AND NOT v = 0 then 0 else pending s c)"
    using assms(1) c9 by (simp add: write_status_eq aspeed_intc_update_def)
  from 1 2 3 4 show ?thesis
    unfolding all_ones by simp
qed

theorem pending_receives_witness:
  "(0::nat) < num_inpins aspeed_2700_intc_class \<and> num_inpins aspeed_2700_intc_class \<le> 9
   \<and> pending (aspeed_intc_set_irq aspeed_2700_intc_class latched 0 1) 0 = 3
   \<and> status (aspeed_intc_set_irq aspeed_2700_intc_class latched 0 1) 0 = 3
   \<and> pending (write_status aspeed_2700_intc_class 0 3 latched_pending) 0 = 0"
proof -
  have m: "currently_asserted_mask aspeed_2700_intc_class latched 0 = 3"
    by (simp add: asserted_mask_bits [where m = 3] latched_def two_enabled_def num_lines_2700)
  have e: "status latched 0 = 3" "pending latched 0 = 0" "enable latched 0 = 3"
    "status latched_pending 0 = 3"
    by (simp_all add: latched_pending_def latched_def two_enabled_def power_on_def status_def)
  show ?thesis
    using chan0(1,2) pending_receives [OF chan0(1,2), of latched 1 3]
      pending_receives [OF chan0(1,2), of latched_pending 1 3]
    by (simp add: m e)
qed

subsection \<open>Repeated notification\<close>

text \<open>
  Claim C7, as stated, fails: on the quiesced channel 0 with source 0 enabled, a second
  \<open>notify(0, 1)\<close> gives a state different from the one after the first call.
\<close>

theorem notify_twice_counterexample:
  "status enabled_idle 0 = 0 \<and> mask_bits enabled_idle 0 = 0 \<and> pending enabled_idle 0 = 0
   \<and> notify aspeed_2700_intc_class 0 1 (notify aspeed_2700_intc_class 0 1 enabled_idle)
       \<noteq> notify aspeed_2700_intc_class 0 1 enabled_idle"
proof -
  have q: "status enabled_idle 0 = 0" "mask_bits enabled_idle 0 = 0" "pending enabled_idle 0 = 0"
    "enable enabled_idle 0 = 1"
    by (simp_all add: enabled_idle_def power_on_def status_def status_reg_eq enable_reg_eq)
  have n: "num_lines aspeed_2700_intc_class = 32"
    by (simp add: aspeed_2700_intc_class_def)
  have "pending (notify aspeed_2700_intc_class 0 1 enabled_idle) 0 = 0"
    by (simp add: notify_eq chan0 q n Let_def aspeed_intc_update_def)
  moreover have "pending (notify aspeed_2700_intc_class 0 1
      (notify aspeed_2700_intc_class 0 1 enabled_idle)) 0 = 1"
    by (simp add: notify_eq chan0 q n Let_def aspeed_intc_update_def status_def)
  ultimately have "notify aspeed_2700_intc_class 0 1 (notify aspeed_2700_intc_class 0 1 enabled_idle)
       \<noteq> notify aspeed_2700_intc_class 0 1 enabled_idle"
    by (metis zero_neq_one)
  with q show ?thesis by simp
qed

text \<open>
  Claim C7, amended. On a valid quiesced channel \<open>c\<close>, the state after two calls of
  \<open>notify(c, m)\<close> is the state after one call with \<open>pending[c]\<close> set to
  \<open>select = m AND enable[c]\<close> (\<open>m\<close> cut to the \<open>num_lines\<close> lines of the gate); enable,
  mask, registers and output lines are those after one call. The two states are equal
  exactly when \<open>select = 0\<close>.
\<close>

theorem notify_twice_amended:
  assumes "c < num_inpins aic"
    and "status s c = 0" and "mask_bits s c = 0" and "pending s c = 0"
  shows "notify aic c m (notify aic c m s) =
      (notify aic c m s)\<lparr>pending :=
         (pending (notify aic c m s))(c := take_bit (num_lines aic) m AND enable s c)\<rparr>
    \<and> ((notify aic c m (notify aic c m s) = notify aic c m s)
         = (take_bit (num_lines aic) m AND enable s c = 0))"
proof -
  let ?s1 = "notify aic c m s"
  let ?sel = "take_bit (num_lines aic) m AND enable s c"
  have p1: "pending ?s1 c = 0"
    using assms by (simp add: notify_quiesced_pending)
  have eq: "notify aic c m ?s1 = ?s1\<lparr>pending := (pending ?s1)(c := ?sel)\<rparr>"
    using assms by (rule notify_twice_eq)
  have "(notify aic c m ?s1 = ?s1) = (?sel = 0)"
  proof
    assume "notify aic c m ?s1 = ?s1"
    with eq have "?s1\<lparr>pending := (pending ?s1)(c := ?sel)\<rparr> = ?s1" by simp
    then have "pending (?s1\<lparr>pending := (pending ?s1)(c := ?sel)\<rparr>) c = pending ?s1 c"
      by (rule arg_cong)
    with p1 show "?sel = 0" by simp
  next
    assume "?sel = 0"
    with p1 have "(pending ?s1)(c := ?sel) = pending ?s1"
      by (simp add: fun_upd_idem)
    with eq show "notify aic c m ?s1 = ?s1" by simp
  qed
  with eq show ?thesis by simp
qed

theorem notify_twice_amended_witness:
  "(0::nat) < num_inpins aspeed_2700_intc_class
   \<and> status enabled_idle 0 = 0 \<and> mask_bits enabled_idle 0 = 0 \<and> pending enabled_idle 0 = 0
   \<and> notify aspeed_2700_intc_class 0 1 (notify aspeed_2700_intc_class 0 1 enabled_idle) =
      (notify aspeed_2700_intc_class 0 1 enabled_idle)\<lparr>pending :=
         (pending (notify aspeed_2700_intc_class 0 1 enabled_idle))(0 := 1)\<rparr>
   \<and> notify aspeed_2700_intc_class 0 2 (notify aspeed_2700_intc_class 0 2 enabled_idle) =
      notify aspeed_2700_intc_class 0 2 enabled_idle"
proof -
  have q: "status enabled_idle 0 = 0" "mask_bits enabled_idle 0 = 0" "pending enabled_idle 0 = 0"
    by (simp_all add: enabled_idle_def power_on_def status_def status_reg_eq enable_reg_eq)
  have e: "enable enabled_idle 0 = 1"
    by (simp add: enabled_idle_def)
  have a: "notify aspeed_2700_intc_class 0 1 (notify aspeed_2700_intc_class 0 1 enabled_idle) =
      (notify aspeed_2700_intc_class 0 1 enabled_idle)\<lparr>pending :=
         (pending (notify aspeed_2700_intc_class 0 1 enabled_idle))(0 := 1)\<rparr>"
    using notify_twice_amended [OF chan0(1) q, of 1, THEN conjunct1]
    by (simp add: e num_lines_2700)
  have b: "notify aspeed_2700_intc_class 0 2 (notify aspeed_2700_intc_class 0 2 enabled_idle) =
      notify aspeed_2700_intc_class 0 2 enabled_idle"
    using notify_twice_amended [OF chan0(1) q, of 2, THEN conjunct2]
    by (simp add: e num_lines_2700)
  from chan0(1) q a b show ?thesis
    by (intro conjI)
qed

subsection \<open>Reading registers\<close>

text \<open>
  Claim C8, as stated, fails for status registers: from power-on, a write of 1 to the
  status register of channel 0 followed by a read of it returns 0.
\<close>

theorem read_after_write_counterexample:
  "aspeed_intc_read (aspeed_intc_write aspeed_2700_intc_class power_on (status_offset 0) 1)
     (status_offset 0) \<noteq> 1"
proof -
  have "aspeed_intc_write aspeed_2700_intc_class power_on (status_offset 0) (ucast (1 :: 32 word))
      = write_status aspeed_2700_intc_class 0 1 power_on"
    by (rule write_status_dispatch) simp
  then show ?thesis
    by (simp add: aspeed_intc_read_def reg_of_status eval_ops)
qed

text \<open>
  Claim C8, amended. For a valid channel \<open>c\<close>, a read of the enable register right after
  a write of \<open>v\<close> to it returns \<open>v\<close>. A read of the status register right after a write
  of \<open>v\<close> returns the latched status the write leaves: the old status for \<open>v = 0\<close>, 0 for
  \<open>v = 0xFFFFFFFF\<close>, else the old status without the bits of \<open>v\<close>, or \<open>pending[c]\<close> when
  no bit is left. After reset, a read of any of the \<open>nr_regs\<close> registers returns 0.
\<close>

theorem read_after_write:
  assumes "c < num_inpins aic" and "num_inpins aic \<le> 9"
  shows "aspeed_intc_read (aspeed_intc_write aic s (en_offset c) (ucast v)) (en_offset c)
           = ucast v
    \<and> aspeed_intc_read (aspeed_intc_write aic s (status_offset c) (ucast v)) (status_offset c)
           = ucast (if v = 0 then status s c
                    else if v = 0xFFFFFFFF then 0
                    else if status s c AND NOT v = 0 then pending s c
                    else status s c AND NOT v)
    \<and> (reg_of offset < nr_regs aic \<longrightarrow>
          aspeed_intc_read (aspeed_intc_reset aic s) offset = 0)"
proof -
  from assms have c9: "c < 9" by simp
  have 1: "aspeed_intc_read (write_enable aic c v s) (en_offset c) = ucast v"
    using assms(1) c9 by (simp add: aspeed_intc_read_def reg_of_en write_enable_eq)
  have 2: "aspeed_intc_read (write_status aic c v s) (status_offset c)
           = ucast (if v = 0 then status s c
                    else if v = - 1 then 0
                    else if status s c AND NOT v = 0 then pending s c
                    else status s c AND NOT v)"
    using assms(1) c9
    by (simp add: aspeed_intc_read_def reg_of_status write_status_eq aspeed_intc_update_def
        status_def)
  have 3: "reg_of offset < nr_regs aic \<longrightarrow>
          aspeed_intc_read (aspeed_intc_reset aic s) offset = 0"
    by (simp add: aspeed_intc_read_def aspeed_intc_reset_def)
  from 1 2 3 show ?thesis
    unfolding all_ones by (simp add: write_en_dispatch write_status_dispatch c9)
qed

theorem read_after_write_witness:
  "(0::nat) < num_inpins aspeed_2700_intc_class \<and> num_inpins aspeed_2700_intc_class \<le> 9
   \<and> aspeed_intc_read (aspeed_intc_write aspeed_2700_intc_class latched (en_offset 0) 2)
        (en_offset 0) = 2
   \<and> aspeed_intc_read (aspeed_intc_write aspeed_2700_intc_class latched (status_offset 0) 1)
        (status_offset 0) = 2
   \<and> reg_of (status_offset 0) < nr_regs aspeed_2700_intc_class
   \<and> aspeed_intc_read (aspeed_intc_reset aspeed_2700_intc_class latched) (status_offset 0) = 0"
proof -
  have e: "status latched 0 = 3"
    by (simp add: latched_def status_def)
  have r: "reg_of (status_offset 0) < nr_regs aspeed_2700_intc_class"
    by (simp add: reg_of_status status_reg_eq aspeed_2700_intc_class_def)
  show ?thesis
    using chan0(1,2) r
      read_after_write [OF chan0(1,2), of latched 2 "status_offset 0"]
      read_after_write [OF chan0(1,2), of latched 1 "status_offset 0"]
    by (simp add: e)
qed

end
